theory Spec2Isabelle
  imports Complex_Main "HOL-Library.FSet" "HOL-Library.Word" "HOL-Library.Sublist"
    "HOL-Library.Product_Lexorder"
begin

unbundle bit_operations_syntax

section \<open>Conventions of the embedding\<close>

text \<open>
  Python strings are lists of Unicode code points, so that \<open>len\<close> and the substring test
  \<open>in\<close> count what Python counts. Python floats are modelled by the reals they approximate:
  every theorem below is about the exact arithmetic of the formulas in the source.
  Exceptions are values of \<open>py_error\<close>, returned on the left of a sum.
\<close>

type_synonym pystr = "nat list"

datatype py_error = KeyError pystr | IntegrityError

definition ascii :: "string \<Rightarrow> pystr" where
  "ascii s = map of_char s"

text \<open>\<open>x or ""\<close> on an optional string.\<close>

definition or_empty :: "pystr option \<Rightarrow> pystr" where
  "or_empty s = (case s of None \<Rightarrow> [] | Some t \<Rightarrow> t)"

text \<open>The substring test \<open>sub in s\<close>.\<close>

fun contains :: "pystr \<Rightarrow> pystr \<Rightarrow> bool" where
  "contains sub [] = (sub = [])"
| "contains sub (c # cs) = (prefix sub (c # cs) \<or> contains sub cs)"

text \<open>
  A \<open>defaultdict(list)\<close> filled by \<open>d[k].append(v)\<close>: Python dictionaries iterate in the
  order in which their keys were first inserted, so the dictionary is an association list.
\<close>

fun group_append :: "'k \<Rightarrow> 'v \<Rightarrow> ('k \<times> 'v list) list \<Rightarrow> ('k \<times> 'v list) list" where
  "group_append k v [] = [(k, [v])]"
| "group_append k v ((k', vs) # rest) =
     (if k = k' then (k', vs @ [v]) # rest else (k', vs) # group_append k v rest)"

section \<open>Similarity primitives\<close>

text \<open>
  post\_process\_dedup.py:
  \<^verbatim>\<open>
  def jaccard(a: set, b: set) -> float:
      if not a or not b: return 0.0
      inter = len(a & b)
      if inter == 0: return 0.0
      return inter / float(len(a | b))
  \<close>
\<close>

definition jaccard :: "'a fset \<Rightarrow> 'a fset \<Rightarrow> real" where
  "jaccard a b =
     (if a = {||} \<or> b = {||} then 0
      else let inter = fcard (a |\<inter>| b)
           in if inter = 0 then 0 else real inter / real (fcard (a |\<union>| b)))"

text \<open>
  \<open>(a ^ b).bit_count()\<close> on two 64-bit fingerprints (\<open>hamming64\<close> in simhash\_utils.py,
  \<open>hamdist64\<close> in post\_process\_dedup.py).
\<close>

definition bit_count :: "64 word \<Rightarrow> nat" where
  "bit_count w = length (filter (bit w) [0..<64])"

definition hamming64 :: "64 word \<Rightarrow> 64 word \<Rightarrow> nat" where
  "hamming64 a b = bit_count (a XOR b)"

definition hamdist64 :: "64 word \<Rightarrow> 64 word \<Rightarrow> nat" where
  "hamdist64 a b = bit_count (a XOR b)"

section \<open>Within-source pass (simhash\_utils.py)\<close>

text \<open>
  An item is a Python dictionary; \<open>obj_id\<close> is its object identity \<open>id(it)\<close>, which the
  function uses to remember the survivors. Dates are instants on an integer time line.
\<close>

record item =
  obj_id :: nat
  source_id :: "pystr option"
  title :: "pystr option"
  summary_raw :: "pystr option"
  date :: "int option"

datatype keep_policy = Earliest | Latest | Longest

text \<open>
  The keyword argument is a string: \<open>"latest"\<close> and \<open>"longest"\<close> select their branch, every
  other value (the default \<open>"earliest"\<close> among them) the last one.
\<close>

definition policy_of :: "pystr \<Rightarrow> keep_policy" where
  "policy_of s = (if s = ascii ''latest'' then Latest
                  else if s = ascii ''longest'' then Longest else Earliest)"

text \<open>The tuple \<open>(sid, h, dt, len(txt), it)\<close>.\<close>

type_synonym enriched = "pystr \<times> 64 word \<times> int option \<times> nat \<times> item"

text \<open>
  \<open>fingerprint t x\<close> stands for \<open>simhash64(norm_text_for_hash(t, x))\<close>: the regular
  expressions and the MD5 digest it is built from belong to Python's library, so the
  fingerprint is a parameter of the model.
\<close>

definition enrich :: "(pystr \<Rightarrow> pystr \<Rightarrow> 64 word) \<Rightarrow> item \<Rightarrow> enriched" where
  "enrich fingerprint it =
     (let sid = or_empty (source_id it);
          dt = date it;
          txt = or_empty (summary_raw it);
          h = fingerprint (or_empty (title it)) txt
      in (sid, h, dt, length txt, it))"

definition by_src :: "enriched list \<Rightarrow> (pystr \<times> enriched list) list" where
  "by_src enr = foldl (\<lambda>d tup. group_append (fst tup) tup d) [] enr"

text \<open>
  \<open>arr.sort(key=...)\<close> is stable, and stays stable under \<open>reverse=True\<close>: a descending
  stable sort is an ascending stable sort on the negated key. \<open>dt_min\<close> and \<open>dt_max\<close> are
  the instants \<open>datetime.min.replace(tzinfo=tzinfo)\<close> and \<open>datetime.max.replace(tzinfo=tzinfo)\<close>
  that stand in for a missing date.
\<close>

definition sort_by_policy :: "keep_policy \<Rightarrow> int \<Rightarrow> int \<Rightarrow> enriched list \<Rightarrow> enriched list" where
  "sort_by_policy pol dt_min dt_max arr =
     (case pol of
        Latest \<Rightarrow>
          sort_key (\<lambda>(sid, h, dt, l, it). - (case dt of None \<Rightarrow> dt_min | Some d \<Rightarrow> d)) arr
      | Longest \<Rightarrow> sort_key (\<lambda>(sid, h, dt, l, it). - int l) arr
      | Earliest \<Rightarrow>
          sort_key (\<lambda>(sid, h, dt, l, it). (case dt of None \<Rightarrow> dt_max | Some d \<Rightarrow> d)) arr)"

text \<open>The variables of the scan: \<open>kept_ids\<close>, \<open>dropped\<close>, \<open>used_hashes\<close>.\<close>

record scan_state =
  kept_ids :: "nat set"
  dropped :: nat
  used_hashes :: "64 word list"

text \<open>\<open>any(hamming64(hi, h_used) <= hamming_threshold for h_used in used_hashes)\<close>\<close>

definition near_any :: "int \<Rightarrow> 64 word \<Rightarrow> 64 word list \<Rightarrow> bool" where
  "near_any hamming_threshold hi used =
     list_ex (\<lambda>h_used. int (hamming64 hi h_used) \<le> hamming_threshold) used"

text \<open>
  One iteration of
  \<^verbatim>\<open>
  for sid_i, hi, dti, li, iti in arr:
      if any(hamming64(hi, h_used) <= hamming_threshold for h_used in used_hashes):
          dropped += 1
          continue
      kept_ids.add(id(iti))
      used_hashes.append(hi)
  \<close>
\<close>

fun scan_step :: "int \<Rightarrow> scan_state \<Rightarrow> enriched \<Rightarrow> scan_state" where
  "scan_step hamming_threshold st (sid_i, hi, dti, li, iti) =
     (if near_any hamming_threshold hi (used_hashes st)
      then st\<lparr>dropped := dropped st + 1\<rparr>
      else st\<lparr>kept_ids := insert (obj_id iti) (kept_ids st),
              used_hashes := used_hashes st @ [hi]\<rparr>)"

definition scan :: "int \<Rightarrow> scan_state \<Rightarrow> enriched list \<Rightarrow> scan_state" where
  "scan hamming_threshold st arr = foldl (scan_step hamming_threshold) st arr"

text \<open>
  The body of \<open>for sid, arr in by_src.items()\<close>. A group of \<open>by_src\<close> is never empty; the
  scan of a longer group starts from an empty \<open>used_hashes\<close>.
\<close>

definition process_group ::
  "keep_policy \<Rightarrow> int \<Rightarrow> int \<Rightarrow> int \<Rightarrow> nat set \<times> nat \<Rightarrow> pystr \<times> enriched list \<Rightarrow> nat set \<times> nat"
where
  "process_group pol dt_min dt_max hamming_threshold acc grp =
     (case acc of (kept, drp) \<Rightarrow>
        (case snd grp of
           [] \<Rightarrow> (kept, drp)
         | [(sid, h, dt, l, it)] \<Rightarrow> (insert (obj_id it) kept, drp)
         | arr \<Rightarrow>
             (let st = scan hamming_threshold
                         \<lparr>kept_ids = kept, dropped = drp, used_hashes = []\<rparr>
                         (sort_by_policy pol dt_min dt_max arr)
              in (kept_ids st, dropped st))))"

definition drop_near_duplicates_within_source ::
  "(pystr \<Rightarrow> pystr \<Rightarrow> 64 word) \<Rightarrow> int \<Rightarrow> int \<Rightarrow> item list \<Rightarrow> int \<Rightarrow> pystr \<Rightarrow> item list"
where
  "drop_near_duplicates_within_source fingerprint dt_min dt_max items hamming_threshold keep_pol =
     (let enr = map (enrich fingerprint) items;
          (kept, drp) = foldl (process_group (policy_of keep_pol) dt_min dt_max hamming_threshold)
                          ({}, 0) (by_src enr)
      in filter (\<lambda>it. obj_id it \<in> kept) items)"

text \<open>
  The branch the scan takes at position \<open>i\<close> of a sorted group: the test of the loop body,
  on the \<open>used_hashes\<close> that the first \<open>i\<close> iterations have left.
\<close>

definition scan_drops :: "int \<Rightarrow> enriched list \<Rightarrow> nat \<Rightarrow> bool" where
  "scan_drops hamming_threshold arr i =
     near_any hamming_threshold (fst (snd (arr ! i)))
       (used_hashes (scan hamming_threshold
          \<lparr>kept_ids = {}, dropped = 0, used_hashes = []\<rparr> (take i arr)))"

section \<open>Candidate recall of the batch clustering (post\_process\_dedup.py)\<close>

text \<open>
  The dataclass \<open>Item\<close>, with the three fields that \<open>prepare\<close> fills: the normalized text
  \<open>norm\<close>, its fingerprint \<open>sh\<close> and its shingle set \<open>shing\<close>.
\<close>

record Item =
  Item_id :: pystr
  Item_title :: pystr
  Item_text :: pystr
  url :: pystr
  Item_date :: pystr
  Item_source_id :: pystr
  raw :: pystr
  norm :: pystr
  sh :: "64 word"
  shing :: "pystr fset"

text \<open>
  \<open>host = urlparse(it.url).netloc if it.url else ""\<close>; \<open>netloc\<close> stands for the library
  function \<open>\<lambda>u. urlparse(u).netloc\<close>.
\<close>

definition host_of :: "(pystr \<Rightarrow> pystr) \<Rightarrow> Item \<Rightarrow> pystr" where
  "host_of netloc it = (if url it \<noteq> [] then netloc (url it) else [])"

definition buckets :: "(pystr \<Rightarrow> pystr) \<Rightarrow> Item list \<Rightarrow> (pystr \<times> nat list) list" where
  "buckets netloc items =
     foldl (\<lambda>d (i, it). group_append (host_of netloc it) i d) [] (enumerate 0 items)"

text \<open>
  The body of the inner loop of \<open>add_pairs\<close>, for the indices \<open>ia\<close> and \<open>ib\<close>: each
  \<open>continue\<close> contributes no pair.
\<close>

definition pair_step :: "Item list \<Rightarrow> real \<Rightarrow> int \<Rightarrow> nat \<Rightarrow> nat \<Rightarrow> (nat \<times> nat) list" where
  "pair_step items jaccard_th ham_th ia ib =
     (let A = items ! ia; B = items ! ib
      in if \<bar>int (length (norm A)) - int (length (norm B))\<bar> > 200 then []
         else let j = jaccard (shing A) (shing B)
              in if j < jaccard_th then []
                 else let h = hamdist64 (sh A) (sh B)
                      in if int h > ham_th then [] else [(ia, ib)])"

text \<open>
  \<^verbatim>\<open>
  def add_pairs(indices):
      m = len(indices)
      for a in range(m):
          ia = indices[a]; A = items[ia]
          for b in range(a+1, m):
              ib = indices[b]; B = items[ib]
              ...
              pairs.append((ia, ib))
  \<close>
  The positions \<open>a\<close> and \<open>b\<close> stay below \<open>m\<close>, and every index of a bucket or of
  \<open>range(len(items))\<close> is a position of \<open>items\<close>, so no read is out of range.
\<close>

definition add_pairs ::
  "Item list \<Rightarrow> real \<Rightarrow> int \<Rightarrow> nat list \<Rightarrow> (nat \<times> nat) list \<Rightarrow> (nat \<times> nat) list"
where
  "add_pairs items jaccard_th ham_th indices pairs =
     (let m = length indices
      in pairs @ concat (map (\<lambda>a. concat (map (\<lambda>b.
                   pair_step items jaccard_th ham_th (indices ! a) (indices ! b)) [a + 1..<m]))
                 [0..<m]))"

definition candidate_pairs ::
  "(pystr \<Rightarrow> pystr) \<Rightarrow> Item list \<Rightarrow> real \<Rightarrow> int \<Rightarrow> (nat \<times> nat) list"
where
  "candidate_pairs netloc items jaccard_th ham_th =
     (let pairs = foldl (\<lambda>ps (host, idxs).
                          if length idxs > 1 then add_pairs items jaccard_th ham_th idxs ps
                          else ps)
                    [] (buckets netloc items)
      in if length items \<le> 400
         then add_pairs items jaccard_th ham_th [0..<length items] pairs
         else pairs)"

section \<open>Auxiliary notions used in the statements and proofs\<close>

text \<open>The three threshold tests that a pair has to pass in \<open>pair_step\<close>, as one predicate.\<close>

definition pair_ok :: "Item list \<Rightarrow> real \<Rightarrow> int \<Rightarrow> nat \<Rightarrow> nat \<Rightarrow> bool" where
  "pair_ok items jaccard_th ham_th ia ib \<longleftrightarrow>
     \<bar>int (length (norm (items ! ia))) - int (length (norm (items ! ib)))\<bar> \<le> 200
     \<and> jaccard_th \<le> jaccard (shing (items ! ia)) (shing (items ! ib))
     \<and> int (hamdist64 (sh (items ! ia)) (sh (items ! ib))) \<le> ham_th"

text \<open>The positions of the items with host \<open>k\<close>, in increasing order.\<close>

definition bucket_spec :: "(pystr \<Rightarrow> pystr) \<Rightarrow> Item list \<Rightarrow> pystr \<Rightarrow> nat list" where
  "bucket_spec netloc xs k = filter (\<lambda>i. host_of netloc (xs ! i) = k) [0..<length xs]"

section \<open>Results\<close>

lemma fcard_inter_le_union: "fcard (a |\<inter>| b) \<le> fcard (a |\<union>| b)"
  by (rule fcard_mono) auto

text \<open>
  C8: \<open>jaccard a b\<close> is \<open>|a \<inter> b| / |a \<union> b|\<close> (wherever the union is not empty, that is,
  wherever the quotient is defined), lies between 0 and 1, is 1 on two copies of a non-empty
  set and 0 as soon as one of the sets is empty.
\<close>

theorem jaccard_bounds:
  "(a |\<union>| b \<noteq> {||} \<longrightarrow> jaccard a b = real (fcard (a |\<inter>| b)) / real (fcard (a |\<union>| b)))
   \<and> 0 \<le> jaccard a b \<and> jaccard a b \<le> 1
   \<and> (a \<noteq> {||} \<longrightarrow> jaccard a a = 1)
   \<and> (a = {||} \<or> b = {||} \<longrightarrow> jaccard a b = 0)"
proof -
  have le: "real (fcard (a |\<inter>| b)) \<le> real (fcard (a |\<union>| b))"
    using fcard_inter_le_union [of a b] by simp
  have eq: "jaccard a b = real (fcard (a |\<inter>| b)) / real (fcard (a |\<union>| b))"
    if "a |\<union>| b \<noteq> {||}"
  proof (cases "a = {||} \<or> b = {||}")
    case True
    then have "a |\<inter>| b = {||}" by auto
    with True show ?thesis by (simp add: jaccard_def)
  next
    case False
    then show ?thesis by (simp add: jaccard_def Let_def)
  qed
  have lo: "0 \<le> jaccard a b"
    by (simp add: jaccard_def Let_def)
  have hi: "jaccard a b \<le> 1"
  proof (cases "a |\<union>| b = {||}")
    case True
    then show ?thesis by (simp add: jaccard_def)
  next
    case False
    then have pos: "0 < real (fcard (a |\<union>| b))"
      by (metis fcard_fempty fcard_seteq le_zero_eq fempty_fsubsetI of_nat_0_less_iff neq0_conv)
    show ?thesis using eq [OF False] le pos by simp
  qed
  have self: "jaccard a a = 1" if "a \<noteq> {||}"
  proof -
    from that have "fcard a \<noteq> 0"
      by (metis fcard_fempty fcard_seteq le_zero_eq fempty_fsubsetI)
    with that show ?thesis by (simp add: jaccard_def Let_def)
  qed
  have emp: "jaccard a b = 0" if "a = {||} \<or> b = {||}"
    using that by (auto simp: jaccard_def)
  from eq lo hi self emp show ?thesis by blast
qed

theorem jaccard_bounds_witness:
  "jaccard {|1::nat, 2, 3|} {|2, 3, 4|} = 1 / 2
   \<and> jaccard {|1::nat, 2, 3|} {|1, 2, 3|} = 1
   \<and> jaccard {||} {|2::nat, 3, 4|} = 0"
  using jaccard_bounds [of "{|1::nat, 2, 3|}" "{|2, 3, 4|}"]
    jaccard_bounds [of "{|1::nat, 2, 3|}" "{|1, 2, 3|}"]
    jaccard_bounds [of "{||}" "{|2::nat, 3, 4|}"]
  by (simp add: fcard_finsert_if)

subsection \<open>The within-source scan\<close>

lemma scan_snoc: "scan th st (arr @ [x]) = scan_step th (scan th st arr) x"
  by (simp add: scan_def)

lemma scan_take_Suc:
  "i < length arr \<Longrightarrow> scan th st (take (Suc i) arr) = scan_step th (scan th st (take i arr)) (arr ! i)"
  by (simp add: take_Suc_conv_app_nth scan_snoc)

lemma used_hashes_scan_step:
  "used_hashes (scan_step th st x) =
     (if near_any th (fst (snd x)) (used_hashes st) then used_hashes st
      else used_hashes st @ [fst (snd x)])"
  by (cases x) simp

text \<open>The fingerprints that the scan keeps do not depend on the identities collected so far.\<close>

lemma used_hashes_scan_indep:
  "used_hashes (scan th \<lparr>kept_ids = k, dropped = d, used_hashes = u\<rparr> arr) =
   used_hashes (scan th \<lparr>kept_ids = {}, dropped = 0, used_hashes = u\<rparr> arr)"
proof (induction arr rule: rev_induct)
  case Nil
  show ?case by (simp add: scan_def)
next
  case (snoc x xs)
  then show ?case by (simp add: scan_snoc used_hashes_scan_step)
qed

text \<open>Invariant of the scan: \<open>used_hashes\<close> holds the fingerprints of the items kept so far.\<close>

lemma used_hashes_scan_take:
  "i \<le> length arr \<Longrightarrow>
   used_hashes (scan th \<lparr>kept_ids = {}, dropped = 0, used_hashes = []\<rparr> (take i arr)) =
     map (\<lambda>j. fst (snd (arr ! j))) (filter (\<lambda>j. \<not> scan_drops th arr j) [0..<i])"
proof (induction i)
  case 0
  show ?case by (simp add: scan_def)
next
  case (Suc i)
  then have i: "i < length arr" by simp
  with Suc show ?case
    by (simp add: scan_take_Suc used_hashes_scan_step scan_drops_def)
qed

text \<open>
  C4: in a source group sorted by the keep-policy, the scan drops the item at position \<open>i\<close>
  exactly when its fingerprint is within the Hamming threshold of the fingerprint of an
  item at an earlier position that the scan kept. A dropped item only increments the
  counter; a kept item adds its identity to \<open>kept_ids\<close> and its fingerprint to
  \<open>used_hashes\<close>. (\<open>pre\<close> and \<open>post\<close> are the variables of the loop before and after the
  iteration, for any \<open>kept_ids\<close> and \<open>dropped\<close> left by the groups before.)
\<close>

theorem within_source_scan_drop_iff:
  assumes arr: "arr = sort_by_policy pol dt_min dt_max grp"
    and i: "i < length arr"
    and pre: "pre = scan th \<lparr>kept_ids = k0, dropped = d0, used_hashes = []\<rparr> (take i arr)"
    and post: "post = scan th \<lparr>kept_ids = k0, dropped = d0, used_hashes = []\<rparr> (take (Suc i) arr)"
  shows "(scan_drops th arr i \<longleftrightarrow>
            (\<exists>j<i. \<not> scan_drops th arr j \<and>
                int (hamming64 (fst (snd (arr ! i))) (fst (snd (arr ! j)))) \<le> th))
       \<and> (scan_drops th arr i \<longrightarrow> post = pre\<lparr>dropped := dropped pre + 1\<rparr>)
       \<and> (\<not> scan_drops th arr i \<longrightarrow>
            post = pre\<lparr>kept_ids := insert (obj_id (snd (snd (snd (snd (arr ! i)))))) (kept_ids pre),
                       used_hashes := used_hashes pre @ [fst (snd (arr ! i))]\<rparr>)"
proof -
  have used: "used_hashes pre =
      map (\<lambda>j. fst (snd (arr ! j))) (filter (\<lambda>j. \<not> scan_drops th arr j) [0..<i])"
    using i by (simp add: pre used_hashes_scan_indep [of th k0 d0] used_hashes_scan_take)
  have dec: "scan_drops th arr i = near_any th (fst (snd (arr ! i))) (used_hashes pre)"
    by (simp add: scan_drops_def pre used_hashes_scan_indep [of th k0 d0])
  have iff: "scan_drops th arr i \<longleftrightarrow>
      (\<exists>j<i. \<not> scan_drops th arr j \<and>
         int (hamming64 (fst (snd (arr ! i))) (fst (snd (arr ! j)))) \<le> th)"
    unfolding dec used near_any_def list_ex_iff by auto
  have step: "post = scan_step th pre (arr ! i)"
    using i by (simp add: pre post scan_take_Suc)
  obtain sid h dt l it where x: "arr ! i = (sid, h, dt, l, it)"
    by (metis prod_cases5)
  have drop_case: "post = pre\<lparr>dropped := dropped pre + 1\<rparr>" if "scan_drops th arr i"
    using that step dec by (simp add: x)
  have keep_case: "post = pre\<lparr>kept_ids := insert (obj_id (snd (snd (snd (snd (arr ! i)))))) (kept_ids pre),
                       used_hashes := used_hashes pre @ [fst (snd (arr ! i))]\<rparr>"
    if "\<not> scan_drops th arr i"
    using that step dec by (simp add: x)
  from iff drop_case keep_case show ?thesis by blast
qed

text \<open>
  C9: the function returns the survivors in the order of the input list: its result is the
  input list with the dropped items removed, whatever the keep-policy.
\<close>

theorem within_source_keeps_input_order:
  "subseq (drop_near_duplicates_within_source fingerprint dt_min dt_max items th keep_pol) items"
  by (simp add: drop_near_duplicates_within_source_def Let_def split: prod.splits)

subsection \<open>Candidate recall\<close>

end
